theory Spec2Isabelle
  imports Main "HOL-Library.Multiset"
begin

section \<open>Text primitives of the scanner\<close>

text \<open>
  The scanner (\<^verbatim>\<open>scanner.py\<close>) works on Python strings, which are sequences of Unicode
  code points. A text is modelled as a \<open>string\<close>, one \<open>char\<close> per code point: the \<open>char\<close>
  with the number \<open>n\<close> is the code point \<open>n\<close>, so the texts of the model are the strings over
  the code points 0 to 255 (ASCII and the Latin-1 supplement). The character classes below
  are those of Python on all 256 of them.
\<close>

text \<open>
  The code points that \<^verbatim>\<open>str.lower\<close> changes: \<open>A\<close> to \<open>Z\<close>, and the upper-case letters
  192 to 214 and 216 to 222 of the supplement (215 is the multiplication sign). Each moves
  to the code point 32 higher.
\<close>

definition is_upper :: "char \<Rightarrow> bool" where
  "is_upper c =
     (let n = (of_char c :: nat)
      in (65 \<le> n \<and> n \<le> 90) \<or> (192 \<le> n \<and> n \<le> 214) \<or> (216 \<le> n \<and> n \<le> 222))"

definition lower_char :: "char \<Rightarrow> char" where
  "lower_char c = (if is_upper c then char_of ((of_char c :: nat) + 32) else c)"

text \<open>\<^verbatim>\<open>text.lower()\<close>\<close>

definition py_lower :: "string \<Rightarrow> string" where
  "py_lower s = map lower_char s"

text \<open>
  The class \<^verbatim>\<open>\w\<close> of a \<^verbatim>\<open>str\<close> pattern: the underscore and every code point that
  \<^verbatim>\<open>str.isalnum\<close> accepts. Below 256 these are the ASCII letters and digits, the
  ordinal indicators 170 and 186, the micro sign 181, the superscript digits 178, 179 and
  185, the fractions 188 to 190, and the letters 192 to 255 without the multiplication
  sign 215 and the division sign 247.
\<close>

definition is_word_char :: "char \<Rightarrow> bool" where
  "is_word_char c =
     (let n = (of_char c :: nat)
      in (97 \<le> n \<and> n \<le> 122) \<or> (65 \<le> n \<and> n \<le> 90) \<or> (48 \<le> n \<and> n \<le> 57) \<or> n = 95 \<or>
         n = 170 \<or> n = 178 \<or> n = 179 \<or> n = 181 \<or> n = 185 \<or> n = 186 \<or>
         (188 \<le> n \<and> n \<le> 190) \<or> (192 \<le> n \<and> n \<le> 214) \<or>
         (216 \<le> n \<and> n \<le> 246) \<or> (248 \<le> n \<and> n \<le> 255))"

text \<open>
  \<^verbatim>\<open>\b\<close> matches the empty string between a \<^verbatim>\<open>\w\<close> character and a character that is
  not one, where the start and the end of the text count as not one. The neighbours of a
  position are given as options: \<open>None\<close> is the start or the end of the text.
\<close>

fun word_side :: "char option \<Rightarrow> bool" where
  "word_side None = False"
| "word_side (Some c) = is_word_char c"

definition at_boundary :: "char option \<Rightarrow> char option \<Rightarrow> bool" where
  "at_boundary prev next_c = (word_side prev \<noteq> word_side next_c)"

fun head_opt :: "string \<Rightarrow> char option" where
  "head_opt [] = None"
| "head_opt (c # cs) = Some c"

text \<open>
  The pattern \<^verbatim>\<open>r"\b" + re.escape(skill) + r"\b"\<close> tried at one position: \<open>prev\<close> is
  the character left of the position, \<open>s\<close> the text from the position on. The escaped
  skill matches itself, character by character (\<open>starts_with\<close>).
\<close>

fun starts_with :: "string \<Rightarrow> string \<Rightarrow> bool" where
  "starts_with [] s = True"
| "starts_with (p # ps) [] = False"
| "starts_with (p # ps) (c # cs) = (if p = c then starts_with ps cs else False)"

definition match_here :: "string \<Rightarrow> char option \<Rightarrow> string \<Rightarrow> bool" where
  "match_here lit prev s =
     (at_boundary prev (head_opt s) \<and>
      starts_with lit s \<and>
      at_boundary (if lit = [] then prev else Some (last lit)) (head_opt (drop (length lit) s)))"

text \<open>\<^verbatim>\<open>re.search\<close> tries the pattern at every position, from left to right.\<close>

fun search_from :: "string \<Rightarrow> char option \<Rightarrow> string \<Rightarrow> bool" where
  "search_from lit prev [] = match_here lit prev []"
| "search_from lit prev (c # cs) =
     (match_here lit prev (c # cs) \<or> search_from lit (Some c) cs)"

definition re_search_word :: "string \<Rightarrow> string \<Rightarrow> bool" where
  "re_search_word lit text = search_from lit None text"

text \<open>The substring test \<^verbatim>\<open>w in text_lower\<close>.\<close>

fun py_in :: "string \<Rightarrow> string \<Rightarrow> bool" where
  "py_in w [] = (w = [])"
| "py_in w (c # cs) = (starts_with w (c # cs) \<or> py_in w cs)"

section \<open>The scorer\<close>

definition IAN_SKILLS :: "string list" where
  "IAN_SKILLS =
     [''python'', ''fastapi'', ''react'', ''typescript'', ''xgboost'', ''yolov8'', ''nlp'',
      ''computer vision'', ''aws'', ''docker'', ''postgresql'', ''redis'', ''claude'',
      ''langchain'', ''scikit-learn'', ''pytorch'', ''tensorflow'', ''kubernetes'',
      ''sql'', ''git'', ''rest api'', ''microservices'', ''llm'', ''openai'']"

text \<open>
  The loop \<^verbatim>\<open>for skill in IAN_SKILLS: if re.search(pattern, text_lower): matched.append(skill)\<close>,
  with the list \<open>matched\<close> passed along.
\<close>

fun match_loop :: "string list \<Rightarrow> string \<Rightarrow> string list \<Rightarrow> string list" where
  "match_loop [] text_lower matched = matched"
| "match_loop (skill # rest) text_lower matched =
     (if re_search_word skill text_lower
      then match_loop rest text_lower (matched @ [skill])
      else match_loop rest text_lower matched)"

text \<open>The four updates of the variable \<open>score\<close>, in the order of the source.\<close>

definition skill_points :: "string list \<Rightarrow> int" where
  "skill_points matched = int (length matched) * 10"

definition senior_adjust :: "string \<Rightarrow> int \<Rightarrow> int" where
  "senior_adjust text_lower score =
     (if list_ex (\<lambda>w. py_in w text_lower) [''senior'', ''lead'', ''staff'']
      then score + 5 else score)"

definition junior_adjust :: "string \<Rightarrow> int \<Rightarrow> int" where
  "junior_adjust text_lower score =
     (if list_ex (\<lambda>w. py_in w text_lower) [''junior'', ''intern'', ''entry'']
      then score - 10 else score)"

definition remote_bonus :: "string \<Rightarrow> int \<Rightarrow> int" where
  "remote_bonus text_lower score =
     (if py_in ''remote'' text_lower then score + 5 else score)"

definition score_listing :: "string \<Rightarrow> int \<times> string list" where
  "score_listing text =
     (let text_lower = py_lower text;
          matched = match_loop IAN_SKILLS text_lower [];
          score = skill_points matched;
          score = senior_adjust text_lower score;
          score = junior_adjust text_lower score;
          score = remote_bonus text_lower score
      in (max 0 score, matched))"

section \<open>The text normalizer\<close>

text \<open>
  White space as \<^verbatim>\<open>\s\<close> and \<^verbatim>\<open>str.strip\<close> see it (\<^verbatim>\<open>str.isspace\<close>): tab to carriage
  return, the separators 28 to 31, the space, the next-line control 133 and the no-break
  space 160.
\<close>

definition is_space :: "char \<Rightarrow> bool" where
  "is_space c =
     (let n = (of_char c :: nat)
      in (9 \<le> n \<and> n \<le> 13) \<or> (28 \<le> n \<and> n \<le> 32) \<or> n = 133 \<or> n = 160)"

text \<open>
  \<^verbatim>\<open><[^>]+>\<close> tried right after a \<open><\<close>: \<open>s\<close> is the text behind the \<open><\<close>. The class
  \<^verbatim>\<open>[^>]+\<close> takes at least one character and everything up to the next \<open>>\<close>; the result is
  the text behind that \<open>>\<close>, or \<open>None\<close> when the pattern does not match here.
\<close>

fun tag_end :: "string \<Rightarrow> string option" where
  "tag_end [] = None"
| "tag_end (c # cs) =
     (if c = CHR ''>'' then None
      else (case dropWhile (\<lambda>x. x \<noteq> CHR ''>'') cs of
              [] \<Rightarrow> None
            | g # rest \<Rightarrow> Some rest))"

lemma tag_end_shorter: "tag_end s = Some r \<Longrightarrow> length r < length s"
proof (cases s)
  case Nil
  assume "tag_end s = Some r"
  with Nil show ?thesis by simp
next
  case (Cons c cs)
  assume a: "tag_end s = Some r"
  have "length (dropWhile (\<lambda>x. x \<noteq> CHR ''>'') cs) \<le> length cs"
    by (rule length_dropWhile_le)
  with a Cons show ?thesis
    by (auto split: if_splits list.splits)
qed

text \<open>\<^verbatim>\<open>re.sub(r"<[^>]+>", " ", html)\<close>: every match, from left to right, becomes one space.\<close>

function sub_tags :: "string \<Rightarrow> string" where
  "sub_tags [] = []"
| "sub_tags (c # cs) =
     (if c = CHR ''<''
      then (case tag_end cs of
              Some rest \<Rightarrow> CHR '' '' # sub_tags rest
            | None \<Rightarrow> c # sub_tags cs)
      else c # sub_tags cs)"
  by pat_completeness auto
termination
  by (relation "measure length") (auto dest: tag_end_shorter)

text \<open>\<^verbatim>\<open>re.sub(r"\s+", " ", clean)\<close>: every run of white space becomes one space.\<close>

function sub_spaces :: "string \<Rightarrow> string" where
  "sub_spaces [] = []"
| "sub_spaces (c # cs) =
     (if is_space c then CHR '' '' # sub_spaces (dropWhile is_space cs)
      else c # sub_spaces cs)"
  by pat_completeness auto
termination
  by (relation "measure length") (auto simp: le_imp_less_Suc length_dropWhile_le)

definition py_strip :: "string \<Rightarrow> string" where
  "py_strip s = rev (dropWhile is_space (rev (dropWhile is_space s)))"

text \<open>
  \<open>clean_text\<close>. The caller always passes a string, so \<^verbatim>\<open>html or ""\<close> is the string
  itself (the empty string is its own replacement).
\<close>

definition clean_text :: "string \<Rightarrow> string" where
  "clean_text html = py_strip (sub_spaces (sub_tags html))"

definition build_hn_url :: "string \<Rightarrow> string" where
  "build_hn_url object_id = ''https://news.ycombinator.com/item?id='' @ object_id"

section \<open>The fetch wrapper\<close>

text \<open>
  A fetched record is a dictionary; the five keys the scanner reads are fields, \<open>None\<close>
  for a key that is absent.
\<close>

record hit =
  objectID :: "string option"
  comment_text :: "string option"
  story_text :: "string option"
  author :: "string option"
  created_at :: "string option"

text \<open>
  The remote endpoint is a parameter. Each of the four steps inside the \<^verbatim>\<open>try\<close> block can
  raise an exception, which is modelled by its message: \<^verbatim>\<open>requests.get\<close> (network error,
  time-out), \<^verbatim>\<open>resp.raise_for_status()\<close> (a response that is not a success),
  \<^verbatim>\<open>resp.json()\<close> (a body that is not JSON) and \<^verbatim>\<open>data.get\<close> (JSON that is not an
  object). An object may lack the key \<^verbatim>\<open>hits\<close>.
\<close>

datatype payload = JsonObject "hit list option" | NotAnObject string

record response =
  raise_for_status :: "string option"
  json :: "string + payload"

type_synonym endpoint = "string \<Rightarrow> int \<Rightarrow> string + response"

definition warn_line :: "string \<Rightarrow> string \<Rightarrow> string" where
  "warn_line query e = ''[warn] HN fetch failed for '' @ [CHR 0x27] @ query @ [CHR 0x27] @ '': '' @ e"

text \<open>
  The body of the \<^verbatim>\<open>try\<close> block: \<open>Inl e\<close> when a step raises an exception with message
  \<open>e\<close>, \<open>Inr\<close> the value of \<^verbatim>\<open>data.get("hits", [])\<close> otherwise.
\<close>

definition try_fetch :: "endpoint \<Rightarrow> string \<Rightarrow> int \<Rightarrow> string + hit list" where
  "try_fetch requests_get query limit =
     (case requests_get query limit of
        Inl e \<Rightarrow> Inl e
      | Inr resp \<Rightarrow>
          (case raise_for_status resp of
             Some e \<Rightarrow> Inl e
           | None \<Rightarrow>
               (case json resp of
                  Inl e \<Rightarrow> Inl e
                | Inr (NotAnObject e) \<Rightarrow> Inl e
                | Inr (JsonObject None) \<Rightarrow> Inr []
                | Inr (JsonObject (Some hits)) \<Rightarrow> Inr hits)))"

text \<open>
  \<open>fetch_hn_jobs\<close> with its handler \<^verbatim>\<open>except Exception as e\<close>: it returns the hits and the
  lines it printed to the error stream.
\<close>

definition fetch_hn_jobs :: "endpoint \<Rightarrow> string \<Rightarrow> int \<Rightarrow> hit list \<times> string list" where
  "fetch_hn_jobs requests_get query limit =
     (case try_fetch requests_get query limit of
        Inl e \<Rightarrow> ([], [warn_line query e])
      | Inr hits \<Rightarrow> (hits, []))"

section \<open>The aggregation loop of \<open>main\<close>\<close>

record listing =
  l_id :: string
  l_score :: int
  l_matched_skills :: "string list"
  l_snippet :: string
  l_url :: string
  l_author :: string
  l_created_at :: string

record scan_state =
  seen_ids :: "string set"
  all_listings :: "listing list"
  stderr :: "string list"

text \<open>\<^verbatim>\<open>hit.get(key, default)\<close> on a field.\<close>

fun dict_get :: "string option \<Rightarrow> string \<Rightarrow> string" where
  "dict_get None d = d"
| "dict_get (Some v) d = v"

text \<open>
  \<^verbatim>\<open>hit.get("comment_text") or hit.get("story_text") or ""\<close>: an absent key and an empty
  string are both false.
\<close>

fun truthy :: "string option \<Rightarrow> bool" where
  "truthy None = False"
| "truthy (Some v) = (v \<noteq> [])"

definition raw_text :: "hit \<Rightarrow> string" where
  "raw_text h =
     (if truthy (comment_text h) then dict_get (comment_text h) []
      else if truthy (story_text h) then dict_get (story_text h) []
      else [])"

text \<open>The body of the inner loop, for one hit.\<close>

definition process_hit :: "scan_state \<Rightarrow> hit \<Rightarrow> scan_state" where
  "process_hit st h =
     (let obj_id = dict_get (objectID h) [] in
      if obj_id \<in> seen_ids st then st
      else
        (let st = st\<lparr>seen_ids := insert obj_id (seen_ids st)\<rparr>;
             raw = raw_text h;
             text = clean_text raw
         in if length text < 50 then st
            else
              (let (score, matched) = score_listing text
               in if score \<le> 0 then st
                  else st\<lparr>all_listings := all_listings st @
                         [\<lparr>l_id = obj_id, l_score = score, l_matched_skills = matched,
                           l_snippet = take 300 text, l_url = build_hn_url obj_id,
                           l_author = dict_get (author h) [],
                           l_created_at = dict_get (created_at h) []\<rparr>]\<rparr>)))"

fun scan_hits :: "scan_state \<Rightarrow> hit list \<Rightarrow> scan_state" where
  "scan_hits st [] = st"
| "scan_hits st (h # hs) = scan_hits (process_hit st h) hs"

text \<open>The outer loop, over the keywords; the warnings of a fetch go to the error stream.\<close>

fun scan_keywords :: "endpoint \<Rightarrow> int \<Rightarrow> scan_state \<Rightarrow> string list \<Rightarrow> scan_state" where
  "scan_keywords requests_get limit st [] = st"
| "scan_keywords requests_get limit st (keyword # ks) =
     (let (hits, err) = fetch_hn_jobs requests_get keyword limit;
          st = st\<lparr>stderr := stderr st @ err\<rparr>
      in scan_keywords requests_get limit (scan_hits st hits) ks)"

definition initial_state :: scan_state where
  "initial_state = \<lparr>seen_ids = {}, all_listings = [], stderr = []\<rparr>"

section \<open>Ranking\<close>

text \<open>
  \<^verbatim>\<open>all_listings.sort(key=lambda x: x["score"], reverse=True)\<close>: a stable sort in which every
  comparison of two scores is reversed, that is a stable sort by the negated score.
\<close>

definition sort_by_score :: "listing list \<Rightarrow> listing list" where
  "sort_by_score ls = sort_key (\<lambda>x. - l_score x) ls"

text \<open>The slice \<^verbatim>\<open>xs[:n]\<close>; a negative \<open>n\<close> counts from the end.\<close>

definition slice_to :: "'a list \<Rightarrow> int \<Rightarrow> 'a list" where
  "slice_to xs n = (if 0 \<le> n then take (nat n) xs else take (length xs - nat (- n)) xs)"

definition top_results :: "listing list \<Rightarrow> int \<Rightarrow> listing list" where
  "top_results ls top_n = slice_to (sort_by_score ls) top_n"

text \<open>\<open>main\<close> up to the list it prints and saves.\<close>

definition main_results :: "endpoint \<Rightarrow> string list \<Rightarrow> int \<Rightarrow> int \<Rightarrow> listing list" where
  "main_results requests_get keywords limit top_n =
     top_results (all_listings (scan_keywords requests_get limit initial_state keywords)) top_n"

section \<open>Facts about the text primitives\<close>

text \<open>
  A whole-word occurrence, stated by positions: the phrase \<open>w\<close> stands in \<open>t\<close> at index
  \<open>i\<close>, the character left of it (if any) is not a word character, and neither is the
  character right of it (if any). The search of the source is compared with it below.
\<close>

definition whole_word_at :: "string \<Rightarrow> string \<Rightarrow> nat \<Rightarrow> bool" where
  "whole_word_at w t i =
     (i + length w \<le> length t \<and> take (length w) (drop i t) = w \<and>
      (i = 0 \<or> \<not> is_word_char (t ! (i - 1))) \<and>
      (i + length w = length t \<or> \<not> is_word_char (t ! (i + length w))))"

lemma starts_with_take: "starts_with lit s = (take (length lit) s = lit)"
  by (induction lit s rule: starts_with.induct) auto

lemma starts_with_append: "starts_with lit s = (\<exists>r. s = lit @ r)"
proof
  assume "starts_with lit s"
  then have "take (length lit) s = lit" by (simp add: starts_with_take)
  then have "s = lit @ drop (length lit) s" by (metis append_take_drop_id)
  then show "\<exists>r. s = lit @ r" ..
next
  assume "\<exists>r. s = lit @ r"
  then show "starts_with lit s" by (auto simp: starts_with_take)
qed

lemma py_in_iff: "py_in w s = (\<exists>u v. s = u @ w @ v)"
proof (induction s)
  case Nil
  show ?case by auto
next
  case (Cons c cs)
  show ?case
  proof
    assume "py_in w (c # cs)"
    then consider "starts_with w (c # cs)" | "py_in w cs" by auto
    then show "\<exists>u v. c # cs = u @ w @ v"
    proof cases
      case 1
      then obtain r where "c # cs = w @ r" by (auto simp: starts_with_append)
      then have "c # cs = [] @ w @ r" by simp
      then show ?thesis by blast
    next
      case 2
      then obtain u v where "cs = u @ w @ v" using Cons.IH by auto
      then have "c # cs = (c # u) @ w @ v" by simp
      then show ?thesis by blast
    qed
  next
    assume "\<exists>u v. c # cs = u @ w @ v"
    then obtain u v where uv: "c # cs = u @ w @ v" by auto
    show "py_in w (c # cs)"
    proof (cases u)
      case Nil
      with uv have "starts_with w (c # cs)" by (auto simp: starts_with_append)
      then show ?thesis by simp
    next
      case (Cons a u')
      with uv have "cs = u' @ w @ v" by simp
      then have "py_in w cs" using Cons.IH by auto
      then show ?thesis by simp
    qed
  qed
qed

text \<open>Equations for evaluation that stop at the first test that decides.\<close>

lemma match_here_code [code]:
  "match_here lit prev s =
     (if starts_with lit s
      then at_boundary prev (head_opt s) \<and>
           at_boundary (if lit = [] then prev else Some (last lit)) (head_opt (drop (length lit) s))
      else False)"
  by (auto simp: match_here_def)

lemma search_from_code [code]:
  "search_from lit prev [] = match_here lit prev []"
  "search_from lit prev (c # cs) =
     (if match_here lit prev (c # cs) then True else search_from lit (Some c) cs)"
  by auto

lemma py_in_code [code]:
  "py_in w [] = (w = [])"
  "py_in w (c # cs) = (if starts_with w (c # cs) then True else py_in w cs)"
  by auto

lemma match_loop_filter:
  "match_loop skills t acc = acc @ filter (\<lambda>skill. re_search_word skill t) skills"
  by (induction skills arbitrary: acc) auto

lemma head_opt_drop: "head_opt (drop n t) = (if n < length t then Some (t ! n) else None)"
proof (cases "n < length t")
  case True
  then have "drop n t = t ! n # drop (Suc n) t" by (simp add: Cons_nth_drop_Suc)
  with True show ?thesis by simp
next
  case False
  then show ?thesis by simp
qed

lemma search_from_positions:
  "search_from lit prev s =
     (\<exists>i\<le>length s. match_here lit (if i = 0 then prev else Some (s ! (i - 1))) (drop i s))"
proof (induction s arbitrary: prev)
  case Nil
  show ?case by simp
next
  case (Cons c cs)
  have "(\<exists>i\<le>length (c # cs). match_here lit (if i = 0 then prev else Some ((c # cs) ! (i - 1))) (drop i (c # cs)))
        = (match_here lit prev (c # cs) \<or>
           (\<exists>j\<le>length cs. match_here lit (if j = 0 then Some c else Some (cs ! (j - 1))) (drop j cs)))"
    (is "?L = (?A \<or> ?B)")
  proof
    assume ?L
    then obtain i where i: "i \<le> length (c # cs)"
      "match_here lit (if i = 0 then prev else Some ((c # cs) ! (i - 1))) (drop i (c # cs))" by blast
    show "?A \<or> ?B"
    proof (cases i)
      case 0
      with i show ?thesis by simp
    next
      case (Suc j)
      with i have "j \<le> length cs"
        "match_here lit (if j = 0 then Some c else Some (cs ! (j - 1))) (drop j cs)"
        by (auto simp: nth_Cons split: nat.splits)
      then show ?thesis by blast
    qed
  next
    assume "?A \<or> ?B"
    then show ?L
    proof
      assume ?A
      then have "match_here lit (if (0::nat) = 0 then prev else Some ((c # cs) ! (0 - 1))) (drop 0 (c # cs))"
        by simp
      then show ?L by blast
    next
      assume ?B
      then obtain j where j: "j \<le> length cs"
        "match_here lit (if j = 0 then Some c else Some (cs ! (j - 1))) (drop j cs)" by blast
      then have "Suc j \<le> length (c # cs) \<and>
        match_here lit (if Suc j = 0 then prev else Some ((c # cs) ! (Suc j - 1))) (drop (Suc j) (c # cs))"
        by (auto simp: nth_Cons split: nat.splits)
      then show ?L by blast
    qed
  qed
  with Cons.IH [of "Some c"] show ?case by simp
qed

lemma match_here_whole_word:
  assumes w: "w \<noteq> []" "is_word_char (hd w)" "is_word_char (last w)" and i: "i \<le> length t"
  shows "match_here w (if i = 0 then None else Some (t ! (i - 1))) (drop i t) = whole_word_at w t i"
proof (cases "take (length w) (drop i t) = w")
  case False
  then show ?thesis by (simp add: match_here_def whole_word_at_def starts_with_take)
next
  case True
  then have "length (take (length w) (drop i t)) = length w" by simp
  then have len: "length w \<le> length (drop i t)" by simp
  then have le: "i + length w \<le> length t" using i by simp
  from w len have pos: "i < length t" by (cases w) auto
  from True w have "hd (drop i t) = hd w" by (metis hd_take length_greater_0_conv)
  with pos have first: "t ! i = hd w" by (simp add: hd_drop_conv_nth)
  have "head_opt (drop i t) = Some (hd w)" using pos first by (simp add: head_opt_drop)
  moreover have "head_opt (drop (length w) (drop i t)) =
      (if i + length w < length t then Some (t ! (i + length w)) else None)"
    by (simp add: head_opt_drop add.commute)
  ultimately show ?thesis using True w le
    by (auto simp: match_here_def whole_word_at_def starts_with_take at_boundary_def)
qed

lemma re_search_word_whole_word:
  assumes "w \<noteq> []" "is_word_char (hd w)" "is_word_char (last w)"
  shows "re_search_word w t = (\<exists>i. whole_word_at w t i)"
proof -
  have "re_search_word w t =
      (\<exists>i\<le>length t. match_here w (if i = 0 then None else Some (t ! (i - 1))) (drop i t))"
    unfolding re_search_word_def by (rule search_from_positions)
  also have "\<dots> = (\<exists>i\<le>length t. whole_word_at w t i)"
    using match_here_whole_word [OF assms] by metis
  also have "\<dots> = (\<exists>i. whole_word_at w t i)"
  proof -
    have "whole_word_at w t i \<Longrightarrow> i \<le> length t" for i
      by (simp add: whole_word_at_def)
    then show ?thesis by blast
  qed
  finally show ?thesis .
qed

lemma skills_are_words:
  "\<forall>w\<in>set IAN_SKILLS. w \<noteq> [] \<and> is_word_char (hd w) \<and> is_word_char (last w)"
  by (simp add: IAN_SKILLS_def is_word_char_def)

lemma distinct_skills: "distinct IAN_SKILLS"
  by (simp add: IAN_SKILLS_def)

section \<open>The scorer: matched skills and score\<close>

lemma py_lower_append: "py_lower (u @ v) = py_lower u @ py_lower v"
  by (simp add: py_lower_def)

lemma py_in_lower:
  assumes "py_lower w = w" "\<exists>u v. text = u @ w @ v"
  shows "py_in w (py_lower text)"
proof -
  from assms(2) obtain u v where "text = u @ w @ v" by blast
  then have "py_lower text = py_lower u @ w @ py_lower v"
    using assms(1) by (simp add: py_lower_append)
  then show ?thesis unfolding py_in_iff by blast
qed

lemma matched_skills_eq:
  "snd (score_listing text) = filter (\<lambda>skill. re_search_word skill (py_lower text)) IAN_SKILLS"
  by (simp add: score_listing_def Let_def match_loop_filter)

lemma score_eq:
  "fst (score_listing text) =
     max 0 (remote_bonus (py_lower text) (junior_adjust (py_lower text)
       (senior_adjust (py_lower text) (skill_points (snd (score_listing text))))))"
  by (simp add: score_listing_def Let_def)

text \<open>A listing text with the skills python and sql and none of the seven markers.\<close>

definition example_text :: string where
  "example_text = ''We use Python and SQL daily in our team of data people, join us.''"

text \<open>
  Claim C1. For every text (a string over the code points 0 to 255, with the character
  classes of Python), the matched list is the list of the skills of \<open>IAN_SKILLS\<close>, in
  the order of \<open>IAN_SKILLS\<close>, that occur in the lower-cased text as a whole word or phrase
  (at some position, with no word character on either side); no skill is listed twice;
  every matched skill is worth 10 points, and the score is these points with the three
  adjustments applied and then clamped at 0. A text whose matched skills are python and sql
  and that has none of the seven markers scores 20.
\<close>

theorem C1_skill_matching:
  "snd (score_listing text) =
     filter (\<lambda>skill. \<exists>i. whole_word_at skill (py_lower text) i) IAN_SKILLS \<and>
   distinct (snd (score_listing text)) \<and>
   skill_points (snd (score_listing text)) = 10 * int (length (snd (score_listing text))) \<and>
   fst (score_listing text) =
     max 0 (remote_bonus (py_lower text) (junior_adjust (py_lower text)
       (senior_adjust (py_lower text) (10 * int (length (snd (score_listing text))))))) \<and>
   (snd (score_listing text) = [''python'', ''sql''] \<and>
    \<not> list_ex (\<lambda>w. py_in w (py_lower text))
         [''senior'', ''lead'', ''staff'', ''junior'', ''intern'', ''entry'', ''remote'']
    \<longrightarrow> score_listing text = (20, [''python'', ''sql'']))"
proof -
  have m: "snd (score_listing text) =
     filter (\<lambda>skill. \<exists>i. whole_word_at skill (py_lower text) i) IAN_SKILLS"
    unfolding matched_skills_eq
    by (rule filter_cong [OF refl]) (use skills_are_words in \<open>auto simp: re_search_word_whole_word\<close>)
  have d: "distinct (snd (score_listing text))"
    unfolding matched_skills_eq using distinct_skills by simp
  have p: "skill_points (snd (score_listing text)) = 10 * int (length (snd (score_listing text)))"
    by (simp add: skill_points_def)
  have s: "fst (score_listing text) =
     max 0 (remote_bonus (py_lower text) (junior_adjust (py_lower text)
       (senior_adjust (py_lower text) (10 * int (length (snd (score_listing text)))))))"
    using score_eq [of "text"] p by simp
  have e: "score_listing text = (20, [''python'', ''sql''])"
    if a: "snd (score_listing text) = [''python'', ''sql'']"
      and b: "\<not> list_ex (\<lambda>w. py_in w (py_lower text))
         [''senior'', ''lead'', ''staff'', ''junior'', ''intern'', ''entry'', ''remote'']"
  proof -
    from b have "fst (score_listing text) = 20"
      unfolding s a by (simp add: remote_bonus_def junior_adjust_def senior_adjust_def)
    with a show ?thesis by (simp add: prod_eq_iff)
  qed
  from m d p s e show ?thesis by blast
qed

theorem C1_skill_matching_witness:
  "score_listing example_text = (20, [''python'', ''sql'']) \<and>
   snd (score_listing example_text) =
     filter (\<lambda>skill. \<exists>i. whole_word_at skill (py_lower example_text) i) IAN_SKILLS"
proof -
  have a: "snd (score_listing example_text) = [''python'', ''sql'']"
    by code_simp
  have b: "\<not> list_ex (\<lambda>w. py_in w (py_lower example_text))
         [''senior'', ''lead'', ''staff'', ''junior'', ''intern'', ''entry'', ''remote'']"
    by code_simp
  from a b C1_skill_matching [of example_text] show ?thesis by blast
qed

text \<open>
  Word characters beyond ASCII count as well: between two \<open>e\<close> with acute accent (code
  point 233) neither \<open>python\<close> nor \<open>sql\<close> stands as a whole word at the ends of
  \<open>python et sql\<close>, and the capital (201) is lowered to the same letter.
\<close>

lemma latin1_neighbours:
  "score_listing ([CHR 0xE9] @ ''python et sql'' @ [CHR 0xE9]) = (0, [])"
  "score_listing ([CHR 0xC9] @ ''Python, sql'' @ [CHR 0xD7]) = (10, [''sql''])"
  "py_lower [CHR 0xC9, CHR 0xD7, CHR ''Z''] = [CHR 0xE9, CHR 0xD7, CHR ''z'']"
  by code_simp+

section \<open>The scorer: the adjustments\<close>

text \<open>
  Claim C2, as the code has it. The bonus is 5 exactly when the lower-cased text contains
  \<open>remote\<close> as a substring, and it is added once, whatever the number of occurrences: the
  score is the score before the bonus plus 5 or plus 0, clamped at 0.
\<close>

theorem C2_remote_bonus:
  "remote_bonus (py_lower text) score =
     score + (if (\<exists>u v. py_lower text = u @ ''remote'' @ v) then 5 else 0) \<and>
   fst (score_listing text) =
     max 0 (junior_adjust (py_lower text)
              (senior_adjust (py_lower text) (skill_points (snd (score_listing text)))) +
            (if (\<exists>u v. py_lower text = u @ ''remote'' @ v) then 5 else 0))"
proof -
  have r: "remote_bonus (py_lower text) s =
     s + (if (\<exists>u v. py_lower text = u @ ''remote'' @ v) then 5 else 0)" for s
    by (simp add: remote_bonus_def py_in_iff)
  show ?thesis using r score_eq [of "text"] by simp
qed

text \<open>
  The claim as written asks for a whole word. In \<open>python remotely\<close> the word \<open>remote\<close> is
  followed by a letter, so there is no whole-word occurrence, and the bonus is given all
  the same: 10 for python and 5 for remote.
\<close>

theorem C2_whole_word_counterexample:
  "\<not> re_search_word ''remote'' (py_lower ''python remotely'') \<and>
   remote_bonus (py_lower ''python remotely'') 10 \<noteq>
     10 + (if re_search_word ''remote'' (py_lower ''python remotely'') then 5 else 0) \<and>
   score_listing ''python remotely'' = (15, [''python''])"
  by code_simp

text \<open>Three occurrences earn the bonus once.\<close>

lemma remote_three_times: "score_listing ''remote, remote, remote: python'' = (15, [''python''])"
  by code_simp

text \<open>
  Claim C5. The score is never negative; a text with a junior-tier marker and no matched
  skill scores 0 (whatever the other markers).
\<close>

theorem C5_score_not_negative:
  "0 \<le> fst (score_listing text) \<and>
   (snd (score_listing text) = [] \<and>
    list_ex (\<lambda>w. py_in w (py_lower text)) [''junior'', ''intern'', ''entry'']
    \<longrightarrow> fst (score_listing text) = 0)"
proof -
  have "0 \<le> fst (score_listing text)"
    by (simp add: score_listing_def Let_def)
  moreover have "fst (score_listing text) = 0"
    if "snd (score_listing text) = []"
      and "list_ex (\<lambda>w. py_in w (py_lower text)) [''junior'', ''intern'', ''entry'']"
    using that score_eq [of "text"]
    by (simp add: remote_bonus_def junior_adjust_def senior_adjust_def skill_points_def)
  ultimately show ?thesis by blast
qed

theorem C5_score_not_negative_witness:
  "snd (score_listing ''Junior intern wanted'') = [] \<and>
   list_ex (\<lambda>w. py_in w (py_lower ''Junior intern wanted'')) [''junior'', ''intern'', ''entry''] \<and>
   fst (score_listing ''Junior intern wanted'') = 0"
proof -
  have a: "snd (score_listing ''Junior intern wanted'') = []" by code_simp
  have b: "list_ex (\<lambda>w. py_in w (py_lower ''Junior intern wanted'')) [''junior'', ''intern'', ''entry'']"
    by code_simp
  from a b C5_score_not_negative [of "''Junior intern wanted''"] show ?thesis by blast
qed

text \<open>
  Claim C6. The two seniority checks are separate \<^verbatim>\<open>if\<close> statements: each changes the
  score by its own amount whatever the other does. A text that contains both \<open>senior\<close> and
  \<open>intern\<close> (in any letter case) gets +5 and -10: its score is 10 per matched skill, minus
  5, plus the remote bonus, clamped at 0.
\<close>

theorem C6_senior_junior_independent:
  "junior_adjust t (senior_adjust t score) =
     score + (if list_ex (\<lambda>w. py_in w t) [''senior'', ''lead'', ''staff''] then 5 else 0)
           - (if list_ex (\<lambda>w. py_in w t) [''junior'', ''intern'', ''entry''] then 10 else 0) \<and>
   ((\<exists>u v. txt = u @ ''senior'' @ v) \<and> (\<exists>u v. txt = u @ ''intern'' @ v) \<longrightarrow>
      py_in ''senior'' (py_lower txt) \<and> py_in ''intern'' (py_lower txt)) \<and>
   (py_in ''senior'' (py_lower txt) \<and> py_in ''intern'' (py_lower txt) \<longrightarrow>
      fst (score_listing txt) =
        max 0 (remote_bonus (py_lower txt)
                 (10 * int (length (snd (score_listing txt))) + 5 - 10)))"
proof -
  have a: "junior_adjust t (senior_adjust t score) =
     score + (if list_ex (\<lambda>w. py_in w t) [''senior'', ''lead'', ''staff''] then 5 else 0)
           - (if list_ex (\<lambda>w. py_in w t) [''junior'', ''intern'', ''entry''] then 10 else 0)"
    by (simp add: junior_adjust_def senior_adjust_def)
  have l: "py_lower ''senior'' = ''senior''" "py_lower ''intern'' = ''intern''"
    by (simp_all add: py_lower_def lower_char_def is_upper_def)
  have b: "py_in ''senior'' (py_lower txt) \<and> py_in ''intern'' (py_lower txt)"
    if "(\<exists>u v. txt = u @ ''senior'' @ v) \<and> (\<exists>u v. txt = u @ ''intern'' @ v)"
    using that l py_in_lower by blast
  have c: "fst (score_listing txt) =
        max 0 (remote_bonus (py_lower txt)
                 (10 * int (length (snd (score_listing txt))) + 5 - 10))"
    if "py_in ''senior'' (py_lower txt) \<and> py_in ''intern'' (py_lower txt)"
    using that score_eq [of "txt"]
    by (simp add: junior_adjust_def senior_adjust_def skill_points_def mult.commute)
  from a b c show ?thesis by blast
qed

theorem C6_senior_junior_independent_witness:
  "(\<exists>u v. ''senior python dev, intern mentor'' = u @ ''senior'' @ v) \<and>
   (\<exists>u v. ''senior python dev, intern mentor'' = u @ ''intern'' @ v) \<and>
   snd (score_listing ''senior python dev, intern mentor'') = [''python''] \<and>
   fst (score_listing ''senior python dev, intern mentor'') = 5"
proof -
  let ?t = "''senior python dev, intern mentor''"
  have s: "\<exists>u v. ?t = u @ ''senior'' @ v"
    unfolding py_in_iff [symmetric] by code_simp
  have i: "\<exists>u v. ?t = u @ ''intern'' @ v"
    unfolding py_in_iff [symmetric] by code_simp
  have m: "snd (score_listing ?t) = [''python'']" by code_simp
  have r: "\<not> py_in ''remote'' (py_lower ?t)" by code_simp
  from s i C6_senior_junior_independent [of _ _ ?t]
  have "fst (score_listing ?t) =
        max 0 (remote_bonus (py_lower ?t) (10 * int (length (snd (score_listing ?t))) + 5 - 10))"
    by blast
  with m r have "fst (score_listing ?t) = 5" by (simp add: remote_bonus_def)
  with s i m show ?thesis by blast
qed

section \<open>Ranking: order, stability and truncation\<close>

lemma sort_by_score_descending:
  "sorted_wrt (\<lambda>a b. l_score b \<le> l_score a) (sort_by_score ls)"
proof -
  have "sorted (map (\<lambda>x. - l_score x) (sort_by_score ls))"
    unfolding sort_by_score_def by (rule sorted_sort_key)
  then show ?thesis by (simp add: sorted_wrt_map)
qed

lemma sort_by_score_mset: "mset (sort_by_score ls) = mset ls"
  by (simp add: sort_by_score_def)

lemma sort_by_score_stable:
  "filter (\<lambda>x. l_score x = k) (sort_by_score ls) = filter (\<lambda>x. l_score x = k) ls"
proof -
  have "filter (\<lambda>x. - l_score x = - k) (sort_by_score ls) = filter (\<lambda>x. - l_score x = - k) ls"
    unfolding sort_by_score_def by (rule sort_key_stable)
  then show ?thesis by simp
qed

lemma sorted_wrt_take_drop:
  assumes "sorted_wrt R xs" "x \<in> set (take n xs)" "y \<in> set (drop n xs)"
  shows "R x y"
proof -
  have "sorted_wrt R (take n xs @ drop n xs)" using assms(1) by simp
  then show ?thesis using assms(2,3) unfolding sorted_wrt_append by blast
qed

text \<open>Candidates for the examples: an identifier and a score, the other fields empty.\<close>

definition candidate :: "string \<Rightarrow> int \<Rightarrow> listing" where
  "candidate i s =
     \<lparr>l_id = i, l_score = s, l_matched_skills = [], l_snippet = [], l_url = build_hn_url i,
      l_author = [], l_created_at = []\<rparr>"

definition ten_candidates :: "listing list" where
  "ten_candidates =
     [candidate ''a'' 20, candidate ''b'' 40, candidate ''c'' 10, candidate ''d'' 40,
      candidate ''e'' 30, candidate ''f'' 5, candidate ''g'' 30, candidate ''h'' 15,
      candidate ''i'' 25, candidate ''j'' 40]"

text \<open>The defaults of the command line.\<close>

definition default_top :: int where
  "default_top = 10"

text \<open>
  Claim C4. The sorted list is in descending order of score, it is a permutation of the
  candidates, and the candidates of any one score stand in it in their order of insertion
  (the sort is stable). For a top-count that is not negative the result is the first
  \<open>top_n\<close> candidates of the sorted list: as many as asked for (or all, if there are fewer),
  and none of those left out has a higher score than one that was kept. Four candidates
  with the scores 30, 10, 30, 20 come out first, third, fourth, second.
\<close>

theorem C4_ranking:
  "sorted_wrt (\<lambda>a b. l_score b \<le> l_score a) (sort_by_score ls) \<and>
   mset (sort_by_score ls) = mset ls \<and>
   (\<forall>k. filter (\<lambda>x. l_score x = k) (sort_by_score ls) = filter (\<lambda>x. l_score x = k) ls) \<and>
   (0 \<le> top_n \<longrightarrow>
      top_results ls top_n = take (nat top_n) (sort_by_score ls) \<and>
      length (top_results ls top_n) = min (nat top_n) (length ls) \<and>
      (\<forall>x\<in>set (top_results ls top_n). \<forall>y\<in>set (drop (nat top_n) (sort_by_score ls)).
         l_score y \<le> l_score x)) \<and>
   (l_score a = 30 \<and> l_score b = 10 \<and> l_score c = 30 \<and> l_score d = 20 \<longrightarrow>
      sort_by_score [a, b, c, d] = [a, c, d, b])"
proof -
  have t: "top_results ls top_n = take (nat top_n) (sort_by_score ls)" if "0 \<le> top_n"
    using that by (simp add: top_results_def slice_to_def)
  have n: "length (top_results ls top_n) = min (nat top_n) (length ls)" if "0 \<le> top_n"
    using t [OF that] by (simp add: sort_by_score_def min.commute)
  have r: "\<forall>x\<in>set (top_results ls top_n). \<forall>y\<in>set (drop (nat top_n) (sort_by_score ls)).
         l_score y \<le> l_score x" if "0 \<le> top_n"
    unfolding t [OF that]
    using sorted_wrt_take_drop [OF sort_by_score_descending] by blast
  have e: "sort_by_score [a, b, c, d] = [a, c, d, b]"
    if "l_score a = 30 \<and> l_score b = 10 \<and> l_score c = 30 \<and> l_score d = 20"
    using that by (simp add: sort_by_score_def)
  from sort_by_score_descending sort_by_score_mset sort_by_score_stable t n r e
  show ?thesis by blast
qed

theorem C4_ranking_witness:
  "top_results ten_candidates 3 = [candidate ''b'' 40, candidate ''d'' 40, candidate ''j'' 40] \<and>
   length (top_results ten_candidates default_top) = 10 \<and>
   sort_by_score [candidate ''a'' 30, candidate ''b'' 10, candidate ''c'' 30, candidate ''d'' 20] =
     [candidate ''a'' 30, candidate ''c'' 30, candidate ''d'' 20, candidate ''b'' 10]"
proof -
  have s: "take (nat 3) (sort_by_score ten_candidates) =
      [candidate ''b'' 40, candidate ''d'' 40, candidate ''j'' 40]"
    by (simp add: sort_by_score_def ten_candidates_def candidate_def)
  have "(0::int) \<le> 3" by simp
  with C4_ranking [of ten_candidates 3]
  have "top_results ten_candidates 3 = take (nat 3) (sort_by_score ten_candidates)"
    by blast
  with s have a: "top_results ten_candidates 3 =
      [candidate ''b'' 40, candidate ''d'' 40, candidate ''j'' 40]" by simp
  have "0 \<le> default_top" by (simp add: default_top_def)
  with C4_ranking [of ten_candidates default_top]
  have "length (top_results ten_candidates default_top) =
      min (nat default_top) (length ten_candidates)"
    by blast
  then have b: "length (top_results ten_candidates default_top) = 10"
    by (simp add: default_top_def ten_candidates_def)
  have "l_score (candidate ''a'' 30) = 30 \<and> l_score (candidate ''b'' 10) = 10 \<and>
      l_score (candidate ''c'' 30) = 30 \<and> l_score (candidate ''d'' 20) = 20"
    by (simp add: candidate_def)
  with C4_ranking [of ten_candidates 3 "candidate ''a'' 30" "candidate ''b'' 10"
      "candidate ''c'' 30" "candidate ''d'' 20"]
  have c: "sort_by_score [candidate ''a'' 30, candidate ''b'' 10, candidate ''c'' 30, candidate ''d'' 20] =
     [candidate ''a'' 30, candidate ''c'' 30, candidate ''d'' 20, candidate ''b'' 10]"
    by blast
  from a b c show ?thesis by blast
qed

section \<open>The aggregation loop: what one run collects\<close>

text \<open>
  Names for what the loop body computes from a hit: its identifier, its normalized text,
  the dictionary appended for it, and the two filters it has to pass.
\<close>

definition hit_id :: "hit \<Rightarrow> string" where
  "hit_id h = dict_get (objectID h) []"

definition hit_text :: "hit \<Rightarrow> string" where
  "hit_text h = clean_text (raw_text h)"

definition listing_of :: "hit \<Rightarrow> listing" where
  "listing_of h =
     \<lparr>l_id = hit_id h, l_score = fst (score_listing (hit_text h)),
      l_matched_skills = snd (score_listing (hit_text h)),
      l_snippet = take 300 (hit_text h), l_url = build_hn_url (hit_id h),
      l_author = dict_get (author h) [], l_created_at = dict_get (created_at h) []\<rparr>"

definition qualifies :: "hit \<Rightarrow> bool" where
  "qualifies h = (50 \<le> length (hit_text h) \<and> 0 < fst (score_listing (hit_text h)))"

text \<open>The hits of a run, in the order in which the two loops meet them, and its warnings.\<close>

definition all_hits :: "endpoint \<Rightarrow> int \<Rightarrow> string list \<Rightarrow> hit list" where
  "all_hits requests_get limit ks = concat (map (\<lambda>k. fst (fetch_hn_jobs requests_get k limit)) ks)"

definition all_warnings :: "endpoint \<Rightarrow> int \<Rightarrow> string list \<Rightarrow> string list" where
  "all_warnings requests_get limit ks =
     concat (map (\<lambda>k. snd (fetch_hn_jobs requests_get k limit)) ks)"

text \<open>
  The listings a sequence of hits adds when the identifiers in \<open>seen\<close> have been met
  before: a closed form of the loop, proved equal to it in \<open>scan_hits_listings\<close>.
\<close>

fun fresh_listings :: "string set \<Rightarrow> hit list \<Rightarrow> listing list" where
  "fresh_listings seen [] = []"
| "fresh_listings seen (h # hs) =
     (if hit_id h \<in> seen then fresh_listings seen hs
      else if qualifies h then listing_of h # fresh_listings (insert (hit_id h) seen) hs
      else fresh_listings (insert (hit_id h) seen) hs)"

lemma process_hit_cases:
  "process_hit st h =
     (if hit_id h \<in> seen_ids st then st
      else if qualifies h
        then st\<lparr>seen_ids := insert (hit_id h) (seen_ids st),
                all_listings := all_listings st @ [listing_of h]\<rparr>
        else st\<lparr>seen_ids := insert (hit_id h) (seen_ids st)\<rparr>)"
  by (auto simp: process_hit_def Let_def hit_id_def hit_text_def qualifies_def listing_of_def
      split: prod.splits)

lemma process_hit_seen: "seen_ids (process_hit st h) = insert (hit_id h) (seen_ids st)"
  by (auto simp: process_hit_cases)

lemma process_hit_stderr: "stderr (process_hit st h) = stderr st"
  by (simp add: process_hit_cases)

lemma process_hit_listings:
  "all_listings (process_hit st h) = all_listings st @ fresh_listings (seen_ids st) [h]"
  by (simp add: process_hit_cases)

lemma scan_hits_seen: "seen_ids (scan_hits st hs) = seen_ids st \<union> hit_id ` set hs"
  by (induction hs arbitrary: st) (auto simp: process_hit_seen)

lemma scan_hits_stderr: "stderr (scan_hits st hs) = stderr st"
  by (induction hs arbitrary: st) (auto simp: process_hit_stderr)

lemma scan_hits_listings:
  "all_listings (scan_hits st hs) = all_listings st @ fresh_listings (seen_ids st) hs"
proof (induction hs arbitrary: st)
  case Nil
  show ?case by simp
next
  case (Cons h hs)
  have "all_listings (scan_hits st (h # hs)) =
      all_listings (process_hit st h) @ fresh_listings (seen_ids (process_hit st h)) hs"
    using Cons.IH [of "process_hit st h"] by simp
  then show ?case
    by (simp add: process_hit_cases insert_absorb)
qed

lemma fresh_listings_append:
  "fresh_listings seen (xs @ ys) =
     fresh_listings seen xs @ fresh_listings (seen \<union> hit_id ` set xs) ys"
proof (induction xs arbitrary: seen)
  case Nil
  show ?case by simp
next
  case (Cons h xs)
  have e: "insert (hit_id h) seen \<union> hit_id ` set xs = seen \<union> hit_id ` set (h # xs)" by auto
  show ?case
  proof (cases "hit_id h \<in> seen")
    case True
    then have "seen \<union> hit_id ` set (h # xs) = seen \<union> hit_id ` set xs" by auto
    with True Cons.IH [of seen] show ?thesis by simp
  next
    case False
    with Cons.IH [of "insert (hit_id h) seen"] e show ?thesis by simp
  qed
qed

lemma fresh_listings_ids:
  "l_id ` set (fresh_listings seen hs) \<subseteq> hit_id ` set hs - seen"
proof (induction hs arbitrary: seen)
  case Nil
  show ?case by simp
next
  case (Cons h hs)
  have l: "l_id (listing_of h) = hit_id h" by (simp add: listing_of_def)
  show ?case
    using Cons.IH [of seen] Cons.IH [of "insert (hit_id h) seen"] l by auto
qed

lemma fresh_listings_distinct: "distinct (map l_id (fresh_listings seen hs))"
proof (induction hs arbitrary: seen)
  case Nil
  show ?case by simp
next
  case (Cons h hs)
  have l: "l_id (listing_of h) = hit_id h" by (simp add: listing_of_def)
  have "hit_id h \<notin> l_id ` set (fresh_listings (insert (hit_id h) seen) hs)"
    using fresh_listings_ids [of "insert (hit_id h) seen" hs] by auto
  then show ?case
    using Cons.IH [of seen] Cons.IH [of "insert (hit_id h) seen"] l by auto
qed

lemma fresh_listings_origin:
  "l \<in> set (fresh_listings seen hs) \<Longrightarrow> \<exists>h\<in>set hs. l = listing_of h \<and> qualifies h"
proof (induction hs arbitrary: seen)
  case Nil
  then show ?case by simp
next
  case (Cons h hs)
  then show ?case by (auto split: if_splits)
qed

text \<open>The first hit that bears an identifier decides alone what the run lists for it.\<close>

lemma fresh_listings_first:
  assumes "hit_id h \<notin> hit_id ` set pre"
  shows "filter (\<lambda>l. l_id l = hit_id h) (fresh_listings {} (pre @ h # post)) =
           (if qualifies h then [listing_of h] else [])"
proof -
  have none: "filter (\<lambda>l. l_id l = x) ls = []" if "x \<notin> l_id ` set ls" for x and ls :: "listing list"
    using that by (induction ls) auto
  have a: "hit_id h \<notin> l_id ` set (fresh_listings {} pre)"
    using fresh_listings_ids [of "{}" pre] assms by auto
  have b: "hit_id h \<notin> l_id ` set (fresh_listings (insert (hit_id h) (hit_id ` set pre)) post)"
    using fresh_listings_ids [of "insert (hit_id h) (hit_id ` set pre)" post] by auto
  have l: "l_id (listing_of h) = hit_id h" by (simp add: listing_of_def)
  have "fresh_listings {} (pre @ h # post) =
      fresh_listings {} pre @
      (if qualifies h then [listing_of h] else []) @
      fresh_listings (insert (hit_id h) (hit_id ` set pre)) post"
    using assms by (simp add: fresh_listings_append)
  then show ?thesis using none [OF a] none [OF b] l by simp
qed

lemma scan_keywords_listings:
  "all_listings (scan_keywords rg limit st ks) =
     all_listings st @ fresh_listings (seen_ids st) (all_hits rg limit ks)"
proof (induction ks arbitrary: st)
  case Nil
  show ?case by (simp add: all_hits_def)
next
  case (Cons k ks)
  obtain hits err where f: "fetch_hn_jobs rg k limit = (hits, err)" by (cases "fetch_hn_jobs rg k limit")
  let ?st1 = "st\<lparr>stderr := stderr st @ err\<rparr>"
  have "all_listings (scan_keywords rg limit st (k # ks)) =
      all_listings (scan_keywords rg limit (scan_hits ?st1 hits) ks)"
    using f by simp
  also have "\<dots> = all_listings (scan_hits ?st1 hits) @
      fresh_listings (seen_ids (scan_hits ?st1 hits)) (all_hits rg limit ks)"
    by (rule Cons.IH)
  also have "\<dots> = all_listings st @ fresh_listings (seen_ids st) (hits @ all_hits rg limit ks)"
    by (simp add: scan_hits_listings scan_hits_seen fresh_listings_append)
  also have "hits @ all_hits rg limit ks = all_hits rg limit (k # ks)"
    using f by (simp add: all_hits_def)
  finally show ?case .
qed

lemma scan_keywords_stderr:
  "stderr (scan_keywords rg limit st ks) = stderr st @ all_warnings rg limit ks"
proof (induction ks arbitrary: st)
  case Nil
  show ?case by (simp add: all_warnings_def)
next
  case (Cons k ks)
  obtain hits err where f: "fetch_hn_jobs rg k limit = (hits, err)" by (cases "fetch_hn_jobs rg k limit")
  let ?st1 = "st\<lparr>stderr := stderr st @ err\<rparr>"
  have "stderr (scan_keywords rg limit st (k # ks)) =
      stderr (scan_keywords rg limit (scan_hits ?st1 hits) ks)"
    using f by simp
  also have "\<dots> = stderr (scan_hits ?st1 hits) @ all_warnings rg limit ks"
    by (rule Cons.IH)
  also have "\<dots> = stderr st @ all_warnings rg limit (k # ks)"
    using f by (simp add: scan_hits_stderr all_warnings_def)
  finally show ?case .
qed

lemma run_listings:
  "all_listings (scan_keywords rg limit initial_state ks) = fresh_listings {} (all_hits rg limit ks)"
  by (simp add: scan_keywords_listings initial_state_def)

lemma top_results_subset: "set (top_results ls top_n) \<subseteq> set ls"
proof -
  have "set (take n (sort_by_score ls)) \<subseteq> set ls" for n
    using set_take_subset [of n "sort_by_score ls"] by (simp add: sort_by_score_def)
  then show ?thesis by (simp add: top_results_def slice_to_def)
qed

lemma top_results_distinct:
  assumes "distinct (map l_id ls)"
  shows "distinct (map l_id (top_results ls top_n))"
proof -
  have "mset (map l_id (sort_by_score ls)) = mset (map l_id ls)"
    by (simp add: sort_by_score_def)
  then have "distinct (map l_id (sort_by_score ls))"
    using assms mset_eq_imp_distinct_iff by blast
  then have "distinct (map l_id (take n (sort_by_score ls)))" for n
    by (simp add: take_map [symmetric])
  then show ?thesis by (simp add: top_results_def slice_to_def)
qed

lemma main_results_subset:
  "set (main_results rg ks limit top_n) \<subseteq> set (fresh_listings {} (all_hits rg limit ks))"
  unfolding main_results_def run_listings by (rule top_results_subset)

lemma main_results_distinct: "distinct (map l_id (main_results rg ks limit top_n))"
  unfolding main_results_def run_listings
  by (rule top_results_distinct) (rule fresh_listings_distinct)

lemma distinct_filter_le_one:
  "distinct (map f xs) \<Longrightarrow> length (filter (\<lambda>x. f x = a) xs) \<le> 1"
proof (induction xs)
  case Nil
  show ?case by simp
next
  case (Cons x xs)
  show ?case
  proof (cases "f x = a")
    case True
    with Cons.prems have "a \<notin> f ` set xs" by auto
    then have "filter (\<lambda>x. f x = a) xs = []" by (induction xs) auto
    with True show ?thesis by simp
  next
    case False
    with Cons show ?thesis by simp
  qed
qed

section \<open>Example hits and an example endpoint\<close>

definition comment_hit :: "string option \<Rightarrow> string \<Rightarrow> hit" where
  "comment_hit oid body =
     \<lparr>objectID = oid, comment_text = Some body, story_text = None, author = None,
      created_at = None\<rparr>"

definition good_hit :: hit where
  "good_hit = comment_hit (Some ''1'')
     ''<p>We are hiring a Python and SQL person for our small data team today.</p>''"

definition other_hit :: hit where
  "other_hit = comment_hit (Some ''1'')
     ''Our team builds data tools with Docker and AWS, come and join us.''"

definition short_hit :: hit where
  "short_hit = comment_hit (Some ''1'') ''python''"

definition hit_50 :: hit where
  "hit_50 = comment_hit (Some ''50'') ''python developers wanted for our platform team now''"

definition hit_49 :: hit where
  "hit_49 = comment_hit (Some ''49'') ''python developers wanted for our platform team no''"

definition anon_hit :: hit where
  "anon_hit = comment_hit None
     ''We need a person who knows SQL and Redis well, write to us today.''"

definition anon_hit2 :: hit where
  "anon_hit2 = comment_hit None
     ''Our team builds data tools with Docker and AWS, come and join us.''"

definition ok_response :: "hit list \<Rightarrow> response" where
  "ok_response hits = \<lparr>raise_for_status = None, json = Inr (JsonObject (Some hits))\<rparr>"

definition example_endpoint :: endpoint where
  "example_endpoint query limit =
     (if query = ''down'' then Inl ''timed out''
      else if query = ''short'' then Inr (ok_response [short_hit])
      else if query = ''ml'' then Inr (ok_response [good_hit])
      else if query = ''data'' then Inr (ok_response [other_hit])
      else if query = ''anon'' then Inr (ok_response [anon_hit])
      else if query = ''anon2'' then Inr (ok_response [anon_hit2])
      else Inr (ok_response []))"

lemma example_fetch:
  "fetch_hn_jobs example_endpoint ''down'' limit = ([], [warn_line ''down'' ''timed out''])"
  "fetch_hn_jobs example_endpoint ''short'' limit = ([short_hit], [])"
  "fetch_hn_jobs example_endpoint ''ml'' limit = ([good_hit], [])"
  "fetch_hn_jobs example_endpoint ''data'' limit = ([other_hit], [])"
  "fetch_hn_jobs example_endpoint ''anon'' limit = ([anon_hit], [])"
  "fetch_hn_jobs example_endpoint ''anon2'' limit = ([anon_hit2], [])"
  by (simp_all add: fetch_hn_jobs_def try_fetch_def example_endpoint_def ok_response_def)

lemma example_ids:
  "hit_id good_hit = ''1''" "hit_id other_hit = ''1''" "hit_id short_hit = ''1''"
  "hit_id hit_50 = ''50''" "hit_id hit_49 = ''49''" "hit_id anon_hit = []" "hit_id anon_hit2 = []"
  by (simp_all add: hit_id_def good_hit_def other_hit_def short_hit_def hit_50_def hit_49_def
      anon_hit_def anon_hit2_def comment_hit_def)

lemma good_hit_qualifies: "qualifies good_hit"
  by code_simp

lemma other_hit_qualifies: "qualifies other_hit"
  by code_simp

lemma anon_hit_qualifies: "qualifies anon_hit"
  by code_simp

lemma anon_hit2_qualifies: "qualifies anon_hit2"
  by code_simp

lemma short_hit_text: "length (hit_text short_hit) = 6"
  by code_simp

lemma hit_50_text: "length (hit_text hit_50) = 50"
  by code_simp

lemma hit_50_score: "score_listing (hit_text hit_50) = (10, [''python''])"
  by code_simp

lemma hit_49_text: "length (hit_text hit_49) = 49"
  by code_simp

lemma hit_49_score: "score_listing (hit_text hit_49) = (10, [''python''])"
  by code_simp

lemma single_result: "0 < top_n \<Longrightarrow> top_results [l] top_n = [l]"
proof -
  assume "0 < top_n"
  then have "nat top_n = Suc (nat top_n - 1)" by simp
  then have "take (nat top_n) [l] = [l]" by (metis take_Suc_Cons take_Nil)
  with \<open>0 < top_n\<close> show ?thesis
    by (simp add: top_results_def slice_to_def sort_by_score_def)
qed

section \<open>The aggregation loop: the claims\<close>

text \<open>
  Claim C7. A hit whose normalized text has fewer than 50 characters adds no listing,
  whatever skills it names. The length filter lets every text of 50 characters or more
  through: a hit with a new identifier and such a text is scored and is listed exactly when
  its score is positive. No listing of a run comes from a text shorter than 50.
\<close>

theorem C7_length_filter:
  "(length (hit_text h) < 50 \<longrightarrow> all_listings (process_hit st h) = all_listings st) \<and>
   (hit_id h \<notin> seen_ids st \<and> 50 \<le> length (hit_text h) \<longrightarrow>
      all_listings (process_hit st h) =
        (if 0 < fst (score_listing (hit_text h)) then all_listings st @ [listing_of h]
         else all_listings st)) \<and>
   (\<forall>l\<in>set (all_listings (scan_keywords rg limit initial_state ks)).
      \<exists>h\<in>set (all_hits rg limit ks). l = listing_of h \<and> 50 \<le> length (hit_text h))"
proof -
  have a: "all_listings (process_hit st h) = all_listings st" if "length (hit_text h) < 50"
    using that by (simp add: process_hit_cases qualifies_def)
  have b: "all_listings (process_hit st h) =
        (if 0 < fst (score_listing (hit_text h)) then all_listings st @ [listing_of h]
         else all_listings st)"
    if "hit_id h \<notin> seen_ids st \<and> 50 \<le> length (hit_text h)"
    using that by (simp add: process_hit_cases qualifies_def)
  have c: "\<exists>h\<in>set (all_hits rg limit ks). l = listing_of h \<and> 50 \<le> length (hit_text h)"
    if "l \<in> set (all_listings (scan_keywords rg limit initial_state ks))" for l
    using that fresh_listings_origin [of l "{}" "all_hits rg limit ks"]
    by (auto simp: run_listings qualifies_def)
  from a b c show ?thesis by blast
qed

theorem C7_length_filter_witness:
  "length (hit_text hit_49) = 49 \<and> score_listing (hit_text hit_49) = (10, [''python'']) \<and>
   all_listings (process_hit initial_state hit_49) = [] \<and>
   length (hit_text hit_50) = 50 \<and> score_listing (hit_text hit_50) = (10, [''python'']) \<and>
   all_listings (process_hit initial_state hit_50) = [listing_of hit_50]"
proof -
  have "length (hit_text hit_49) < 50" by (simp add: hit_49_text)
  with C7_length_filter [of hit_49 initial_state]
  have "all_listings (process_hit initial_state hit_49) = all_listings initial_state" by blast
  then have a: "all_listings (process_hit initial_state hit_49) = []"
    by (simp add: initial_state_def)
  have "hit_id hit_50 \<notin> seen_ids initial_state \<and> 50 \<le> length (hit_text hit_50)"
    by (simp add: hit_50_text initial_state_def)
  with C7_length_filter [of hit_50 initial_state]
  have "all_listings (process_hit initial_state hit_50) =
        (if 0 < fst (score_listing (hit_text hit_50))
         then all_listings initial_state @ [listing_of hit_50]
         else all_listings initial_state)" by blast
  then have b: "all_listings (process_hit initial_state hit_50) = [listing_of hit_50]"
    by (simp add: hit_50_score initial_state_def)
  from a b hit_49_text hit_49_score hit_50_text hit_50_score show ?thesis by blast
qed

text \<open>
  Claim C9. The loop body puts the identifier of a hit into the set of seen identifiers
  before it looks at the text. So when the first hit of a run that bears an identifier is
  dropped, for a short text or for a score that is not positive, the run lists nothing
  under that identifier, whatever the later hits with it are.
\<close>

theorem C9_seen_before_filters:
  "seen_ids (process_hit st h) = insert (hit_id h) (seen_ids st) \<and>
   (all_hits rg limit ks = pre @ h # post \<and> hit_id h \<notin> hit_id ` set pre \<and>
    (length (hit_text h) < 50 \<or> fst (score_listing (hit_text h)) \<le> 0) \<longrightarrow>
      hit_id h \<notin> l_id ` set (all_listings (scan_keywords rg limit initial_state ks)) \<and>
      hit_id h \<notin> l_id ` set (main_results rg ks limit top_n))"
proof -
  have "hit_id h \<notin> l_id ` set (all_listings (scan_keywords rg limit initial_state ks)) \<and>
      hit_id h \<notin> l_id ` set (main_results rg ks limit top_n)"
    if hs: "all_hits rg limit ks = pre @ h # post" and first: "hit_id h \<notin> hit_id ` set pre"
      and dropped: "length (hit_text h) < 50 \<or> fst (score_listing (hit_text h)) \<le> 0"
  proof -
    from dropped have "\<not> qualifies h" by (auto simp: qualifies_def)
    with fresh_listings_first [OF first, of post]
    have "filter (\<lambda>l. l_id l = hit_id h) (fresh_listings {} (all_hits rg limit ks)) = []"
      by (simp add: hs)
    then have n: "hit_id h \<notin> l_id ` set (fresh_listings {} (all_hits rg limit ks))"
      by (auto simp: filter_empty_conv)
    then have "hit_id h \<notin> l_id ` set (main_results rg ks limit top_n)"
      using main_results_subset [of rg ks limit top_n] by blast
    with n show ?thesis by (simp add: run_listings)
  qed
  then show ?thesis using process_hit_seen [of st h] by blast
qed

theorem C9_seen_before_filters_witness:
  "all_hits example_endpoint 50 [''short'', ''ml''] = [short_hit, good_hit] \<and>
   hit_id good_hit = hit_id short_hit \<and> length (hit_text short_hit) < 50 \<and>
   qualifies good_hit \<and>
   hit_id short_hit \<notin>
     l_id ` set (all_listings (scan_keywords example_endpoint 50 initial_state [''short'', ''ml'']))"
proof -
  have a: "all_hits example_endpoint 50 [''short'', ''ml''] = [] @ short_hit # [good_hit]"
    by (simp add: all_hits_def example_fetch)
  have b: "hit_id short_hit \<notin> hit_id ` set []" by simp
  have c: "length (hit_text short_hit) < 50" by (simp add: short_hit_text)
  from a b c C9_seen_before_filters [of _ short_hit example_endpoint 50 "[''short'', ''ml'']" "[]" "[good_hit]"]
  have "hit_id short_hit \<notin>
     l_id ` set (all_listings (scan_keywords example_endpoint 50 initial_state [''short'', ''ml'']))"
    by blast
  with a c good_hit_qualifies show ?thesis by (simp add: example_ids)
qed

lemma filter_sort_by_score_single:
  assumes "filter P ls = [x]"
  shows "filter P (sort_by_score ls) = [x]"
proof -
  have "mset (filter P (sort_by_score ls)) = filter_mset P (mset (sort_by_score ls))" by simp
  also have "\<dots> = mset (filter P ls)" by (simp add: sort_by_score_def)
  finally have "mset (filter P (sort_by_score ls)) = {#x#}" using assms by simp
  then show ?thesis by (metis mset_single_iff)
qed

lemma top_results_all:
  assumes "0 \<le> top_n" "length ls \<le> nat top_n"
  shows "top_results ls top_n = sort_by_score ls"
  using assms by (simp add: top_results_def slice_to_def sort_by_score_def)

text \<open>
  Claim C3, as the code has it. No two listings of the output share an identifier. What
  the output lists under an identifier is the listing of the first hit that bears it, and
  nothing else. When that first hit passes the length filter and the score filter, the run
  collects exactly one listing for the identifier, that listing is in the ranked list, and
  for a top-count that is not negative the output is the first top-count entries of the
  ranked list: so the output holds exactly that one listing for the identifier whenever the
  top-count is at least the number of collected listings.
\<close>

theorem C3_unique_identifiers:
  "distinct (map l_id (main_results rg ks limit top_n)) \<and>
   (all_hits rg limit ks = pre @ h # post \<and> hit_id h \<notin> hit_id ` set pre \<longrightarrow>
      (\<forall>l\<in>set (main_results rg ks limit top_n). l_id l = hit_id h \<longrightarrow> l = listing_of h) \<and>
      (qualifies h \<longrightarrow>
         filter (\<lambda>l. l_id l = hit_id h)
           (all_listings (scan_keywords rg limit initial_state ks)) = [listing_of h] \<and>
         filter (\<lambda>l. l_id l = hit_id h)
           (sort_by_score (all_listings (scan_keywords rg limit initial_state ks))) =
           [listing_of h] \<and>
         (0 \<le> top_n \<longrightarrow>
            main_results rg ks limit top_n =
              take (nat top_n)
                (sort_by_score (all_listings (scan_keywords rg limit initial_state ks)))) \<and>
         (0 \<le> top_n \<and>
          length (all_listings (scan_keywords rg limit initial_state ks)) \<le> nat top_n \<longrightarrow>
            filter (\<lambda>l. l_id l = hit_id h) (main_results rg ks limit top_n) =
              [listing_of h])))"
proof -
  let ?run = "all_listings (scan_keywords rg limit initial_state ks)"
  have t: "main_results rg ks limit top_n = take (nat top_n) (sort_by_score ?run)"
    if "0 \<le> top_n"
    using that by (simp add: main_results_def top_results_def slice_to_def)
  have "(\<forall>l\<in>set (main_results rg ks limit top_n). l_id l = hit_id h \<longrightarrow> l = listing_of h) \<and>
      (qualifies h \<longrightarrow>
         filter (\<lambda>l. l_id l = hit_id h) ?run = [listing_of h] \<and>
         filter (\<lambda>l. l_id l = hit_id h) (sort_by_score ?run) = [listing_of h] \<and>
         (0 \<le> top_n \<longrightarrow>
            main_results rg ks limit top_n = take (nat top_n) (sort_by_score ?run)) \<and>
         (0 \<le> top_n \<and> length ?run \<le> nat top_n \<longrightarrow>
            filter (\<lambda>l. l_id l = hit_id h) (main_results rg ks limit top_n) =
              [listing_of h]))"
    if hs: "all_hits rg limit ks = pre @ h # post" and first: "hit_id h \<notin> hit_id ` set pre"
  proof -
    have f: "filter (\<lambda>l. l_id l = hit_id h) ?run =
        (if qualifies h then [listing_of h] else [])"
      using fresh_listings_first [OF first, of post] by (simp add: hs run_listings)
    have a: "l = listing_of h"
      if "l \<in> set (main_results rg ks limit top_n)" and "l_id l = hit_id h" for l
    proof -
      from that main_results_subset [of rg ks limit top_n]
      have "l \<in> set (filter (\<lambda>l. l_id l = hit_id h) ?run)"
        by (auto simp: run_listings)
      then show ?thesis unfolding f by (auto split: if_splits)
    qed
    have b: "filter (\<lambda>l. l_id l = hit_id h) (sort_by_score ?run) = [listing_of h]"
      if "qualifies h"
      using that f by (simp add: filter_sort_by_score_single)
    have c: "filter (\<lambda>l. l_id l = hit_id h) (main_results rg ks limit top_n) = [listing_of h]"
      if q: "qualifies h" and n: "0 \<le> top_n \<and> length ?run \<le> nat top_n"
    proof -
      from n have "main_results rg ks limit top_n = sort_by_score ?run"
        by (simp add: main_results_def top_results_all)
      with b [OF q] show ?thesis by simp
    qed
    from a b c f t show ?thesis by auto
  qed
  then show ?thesis using main_results_distinct [of rg ks limit top_n] by blast
qed

theorem C3_unique_identifiers_witness:
  "all_hits example_endpoint 50 [''ml'', ''data''] = [good_hit, other_hit] \<and>
   hit_id other_hit = hit_id good_hit \<and> qualifies other_hit \<and>
   filter (\<lambda>l. l_id l = hit_id good_hit)
     (all_listings (scan_keywords example_endpoint 50 initial_state [''ml'', ''data''])) =
     [listing_of good_hit] \<and>
   filter (\<lambda>l. l_id l = hit_id good_hit)
     (main_results example_endpoint [''ml'', ''data''] 50 10) = [listing_of good_hit]"
proof -
  let ?run = "all_listings (scan_keywords example_endpoint 50 initial_state [''ml'', ''data''])"
  have h: "all_hits example_endpoint 50 [''ml'', ''data''] = [good_hit, other_hit]"
    by (simp add: all_hits_def example_fetch)
  then have a: "all_hits example_endpoint 50 [''ml'', ''data''] = [] @ good_hit # [other_hit]"
    by simp
  have b: "hit_id good_hit \<notin> hit_id ` set []" by simp
  have "?run = [listing_of good_hit]"
    unfolding run_listings h by (simp add: example_ids good_hit_qualifies)
  then have n: "(0::int) \<le> 10 \<and> length ?run \<le> nat 10" by simp
  from a b n good_hit_qualifies
    C3_unique_identifiers [of example_endpoint "[''ml'', ''data'']" 50 10 "[]" good_hit "[other_hit]"]
  have "filter (\<lambda>l. l_id l = hit_id good_hit) ?run = [listing_of good_hit] \<and>
    filter (\<lambda>l. l_id l = hit_id good_hit)
     (main_results example_endpoint [''ml'', ''data''] 50 10) = [listing_of good_hit]"
    by blast
  with h other_hit_qualifies show ?thesis by (simp add: example_ids)
qed

text \<open>
  The claim as written promises exactly one listing whenever an identifier comes back
  under several keywords. Here the keyword \<open>short\<close> fetches a hit with the identifier 1 and
  the text \<open>python\<close>, and the keyword \<open>ml\<close> fetches a hit with the same identifier and a
  text that earns a listing when it comes first: the run lists nothing.
\<close>

theorem C3_exactly_one_counterexample:
  "all_hits example_endpoint 50 [''short'', ''ml''] = [short_hit, good_hit] \<and>
   hit_id short_hit = ''1'' \<and> hit_id good_hit = ''1'' \<and>
   main_results example_endpoint [''short'', ''ml''] 50 10 = [] \<and>
   length (filter (\<lambda>l. l_id l = ''1'')
     (main_results example_endpoint [''short'', ''ml''] 50 10)) \<noteq> 1 \<and>
   main_results example_endpoint [''ml''] 50 10 = [listing_of good_hit]"
proof -
  have n: "\<not> qualifies short_hit" by (simp add: qualifies_def short_hit_text)
  have a: "all_hits example_endpoint 50 [''short'', ''ml''] = [short_hit, good_hit]"
    by (simp add: all_hits_def example_fetch)
  have b: "all_hits example_endpoint 50 [''ml''] = [good_hit]"
    by (simp add: all_hits_def example_fetch)
  have c: "main_results example_endpoint [''short'', ''ml''] 50 10 = []"
    unfolding main_results_def run_listings a
    by (simp add: n example_ids top_results_def slice_to_def sort_by_score_def)
  have d: "main_results example_endpoint [''ml''] 50 10 = [listing_of good_hit]"
    unfolding main_results_def run_listings b
    by (simp add: good_hit_qualifies single_result)
  from a c d show ?thesis by (simp add: example_ids)
qed

text \<open>
  Claim C10. A hit without the key \<open>objectID\<close> gets the empty string as its identifier,
  and the empty string goes into the set of seen identifiers like any other. So a run
  lists at most one listing with the empty identifier, and its URL is the item URL with
  nothing behind \<open>id=\<close>. The loop body has no step that raises for such a hit: it is a total
  function of the state and the hit.
\<close>

theorem C10_missing_identifier:
  "(objectID h = None \<longrightarrow>
      hit_id h = [] \<and> seen_ids (process_hit st h) = insert [] (seen_ids st) \<and>
      l_url (listing_of h) = ''https://news.ycombinator.com/item?id='') \<and>
   length (filter (\<lambda>l. l_id l = [])
     (all_listings (scan_keywords rg limit initial_state ks))) \<le> 1 \<and>
   length (filter (\<lambda>l. l_id l = []) (main_results rg ks limit top_n)) \<le> 1 \<and>
   (\<forall>l\<in>set (main_results rg ks limit top_n).
      l_id l = [] \<longrightarrow> l_url l = ''https://news.ycombinator.com/item?id='')"
proof -
  have a: "hit_id h = [] \<and> seen_ids (process_hit st h) = insert [] (seen_ids st) \<and>
      l_url (listing_of h) = ''https://news.ycombinator.com/item?id=''"
    if "objectID h = None"
    using that process_hit_seen [of st h]
    by (simp add: hit_id_def listing_of_def build_hn_url_def)
  have b: "length (filter (\<lambda>l. l_id l = [])
     (all_listings (scan_keywords rg limit initial_state ks))) \<le> 1"
    unfolding run_listings by (rule distinct_filter_le_one) (rule fresh_listings_distinct)
  have c: "length (filter (\<lambda>l. l_id l = []) (main_results rg ks limit top_n)) \<le> 1"
    by (rule distinct_filter_le_one) (rule main_results_distinct)
  have d: "l_url l = ''https://news.ycombinator.com/item?id=''"
    if "l \<in> set (main_results rg ks limit top_n)" and "l_id l = []" for l
  proof -
    from that(1) main_results_subset [of rg ks limit top_n]
    have "l \<in> set (fresh_listings {} (all_hits rg limit ks))" by blast
    then obtain g where "l = listing_of g" using fresh_listings_origin by blast
    with that(2) show ?thesis by (simp add: listing_of_def build_hn_url_def)
  qed
  from a b c d show ?thesis by blast
qed

theorem C10_missing_identifier_witness:
  "objectID anon_hit = None \<and> objectID anon_hit2 = None \<and>
   qualifies anon_hit \<and> qualifies anon_hit2 \<and>
   all_listings (scan_keywords example_endpoint 50 initial_state [''anon'', ''anon2'']) =
     [listing_of anon_hit] \<and>
   l_id (listing_of anon_hit) = [] \<and>
   l_url (listing_of anon_hit) = ''https://news.ycombinator.com/item?id=''"
proof -
  have n: "objectID anon_hit = None" "objectID anon_hit2 = None"
    by (simp_all add: anon_hit_def anon_hit2_def comment_hit_def)
  from n(1) C10_missing_identifier [of anon_hit]
  have u: "hit_id anon_hit = [] \<and> l_url (listing_of anon_hit) = ''https://news.ycombinator.com/item?id=''"
    by blast
  have h: "all_hits example_endpoint 50 [''anon'', ''anon2''] = [anon_hit, anon_hit2]"
    by (simp add: all_hits_def example_fetch)
  have r: "all_listings (scan_keywords example_endpoint 50 initial_state [''anon'', ''anon2'']) =
     [listing_of anon_hit]"
    unfolding run_listings h by (simp add: example_ids anon_hit_qualifies)
  have i: "l_id (listing_of anon_hit) = []" by (simp add: listing_of_def example_ids)
  from n u r i anon_hit_qualifies anon_hit2_qualifies show ?thesis by blast
qed

section \<open>The fetch wrapper: failures\<close>

lemma try_fetch_raises:
  "(try_fetch rg k limit = Inl e) =
     (rg k limit = Inl e \<or>
      (\<exists>resp. rg k limit = Inr resp \<and>
         (raise_for_status resp = Some e \<or>
          (raise_for_status resp = None \<and>
             (json resp = Inl e \<or> json resp = Inr (NotAnObject e))))))"
  by (auto simp: try_fetch_def split: sum.splits option.splits payload.splits)

lemma all_hits_append:
  "all_hits rg limit (xs @ ys) = all_hits rg limit xs @ all_hits rg limit ys"
  by (simp add: all_hits_def)

lemma all_warnings_append:
  "all_warnings rg limit (xs @ ys) = all_warnings rg limit xs @ all_warnings rg limit ys"
  by (simp add: all_warnings_def)

text \<open>An endpoint that fails in each of the four ways, and answers the keyword \<open>ml\<close>.\<close>

definition failing_endpoint :: endpoint where
  "failing_endpoint query limit =
     (if query = ''down'' then Inl ''timed out''
      else if query = ''busy''
        then Inr \<lparr>raise_for_status = Some ''503 Server Error'', json = Inl []\<rparr>
      else if query = ''html''
        then Inr \<lparr>raise_for_status = None, json = Inl ''Expecting value''\<rparr>
      else if query = ''list''
        then Inr \<lparr>raise_for_status = None, json = Inr (NotAnObject ''no attribute get'')\<rparr>
      else Inr (ok_response [good_hit]))"

text \<open>
  Claim C8. An exception raised by any step of the fetch (the request, the status check,
  the decoding of the body, the lookup in the decoded value) is caught in
  \<open>fetch_hn_jobs\<close>: it returns no hits and prints one warning, which holds the keyword and
  the message of the exception. The loop over the keywords goes on: the listings of the run
  are those of the run without the failing keyword, and the error stream holds the warning
  between the warnings of the keywords before and after it.
\<close>

theorem C8_fetch_failure_caught:
  "(try_fetch rg k limit = Inl e) =
     (rg k limit = Inl e \<or>
      (\<exists>resp. rg k limit = Inr resp \<and>
         (raise_for_status resp = Some e \<or>
          (raise_for_status resp = None \<and>
             (json resp = Inl e \<or> json resp = Inr (NotAnObject e)))))) \<and>
   (try_fetch rg k limit = Inl e \<longrightarrow>
      fetch_hn_jobs rg k limit = ([], [warn_line k e]) \<and>
      (\<exists>a b. warn_line k e = a @ k @ b @ e) \<and>
      scan_keywords rg limit st (k # ks) =
        scan_keywords rg limit (st\<lparr>stderr := stderr st @ [warn_line k e]\<rparr>) ks \<and>
      all_listings (scan_keywords rg limit st (pre @ k # post)) =
        all_listings (scan_keywords rg limit st (pre @ post)) \<and>
      stderr (scan_keywords rg limit st (pre @ k # post)) =
        stderr st @ all_warnings rg limit pre @ [warn_line k e] @ all_warnings rg limit post)"
proof -
  have "fetch_hn_jobs rg k limit = ([], [warn_line k e]) \<and>
      (\<exists>a b. warn_line k e = a @ k @ b @ e) \<and>
      scan_keywords rg limit st (k # ks) =
        scan_keywords rg limit (st\<lparr>stderr := stderr st @ [warn_line k e]\<rparr>) ks \<and>
      all_listings (scan_keywords rg limit st (pre @ k # post)) =
        all_listings (scan_keywords rg limit st (pre @ post)) \<and>
      stderr (scan_keywords rg limit st (pre @ k # post)) =
        stderr st @ all_warnings rg limit pre @ [warn_line k e] @ all_warnings rg limit post"
    if raised: "try_fetch rg k limit = Inl e"
  proof -
    have f: "fetch_hn_jobs rg k limit = ([], [warn_line k e])"
      using raised by (simp add: fetch_hn_jobs_def)
    have "warn_line k e =
        (''[warn] HN fetch failed for '' @ [CHR 0x27]) @ k @ ([CHR 0x27] @ '': '') @ e"
      by (simp add: warn_line_def)
    then have w: "\<exists>a b. warn_line k e = a @ k @ b @ e" by blast
    have s: "scan_keywords rg limit st (k # ks) =
        scan_keywords rg limit (st\<lparr>stderr := stderr st @ [warn_line k e]\<rparr>) ks"
      using f by simp
    have "all_hits rg limit [k] = []" "all_warnings rg limit [k] = [warn_line k e]"
      using f by (simp_all add: all_hits_def all_warnings_def)
    then have h: "all_hits rg limit (pre @ k # post) = all_hits rg limit (pre @ post)"
      and a: "all_warnings rg limit (pre @ k # post) =
        all_warnings rg limit pre @ [warn_line k e] @ all_warnings rg limit post"
      using all_hits_append [of rg limit pre "[k] @ post"] all_hits_append [of rg limit "[k]" post]
        all_warnings_append [of rg limit pre "[k] @ post"]
        all_warnings_append [of rg limit "[k]" post]
      by (simp_all add: all_hits_append)
    have l: "all_listings (scan_keywords rg limit st (pre @ k # post)) =
        all_listings (scan_keywords rg limit st (pre @ post))"
      unfolding scan_keywords_listings h ..
    have t: "stderr (scan_keywords rg limit st (pre @ k # post)) =
        stderr st @ all_warnings rg limit pre @ [warn_line k e] @ all_warnings rg limit post"
      unfolding scan_keywords_stderr a ..
    from f w s l t show ?thesis by blast
  qed
  then show ?thesis using try_fetch_raises [of rg k limit e] by blast
qed

theorem C8_fetch_failure_caught_witness:
  "fetch_hn_jobs failing_endpoint ''down'' 50 = ([], [warn_line ''down'' ''timed out'']) \<and>
   fetch_hn_jobs failing_endpoint ''busy'' 50 = ([], [warn_line ''busy'' ''503 Server Error'']) \<and>
   fetch_hn_jobs failing_endpoint ''html'' 50 = ([], [warn_line ''html'' ''Expecting value'']) \<and>
   fetch_hn_jobs failing_endpoint ''list'' 50 = ([], [warn_line ''list'' ''no attribute get'']) \<and>
   all_listings (scan_keywords failing_endpoint 50 initial_state [''down'', ''ml'']) =
     [listing_of good_hit] \<and>
   stderr (scan_keywords failing_endpoint 50 initial_state [''down'', ''ml'']) =
     [warn_line ''down'' ''timed out'']"
proof -
  have r: "try_fetch failing_endpoint ''down'' 50 = Inl ''timed out''"
    "try_fetch failing_endpoint ''busy'' 50 = Inl ''503 Server Error''"
    "try_fetch failing_endpoint ''html'' 50 = Inl ''Expecting value''"
    "try_fetch failing_endpoint ''list'' 50 = Inl ''no attribute get''"
    by (simp_all add: try_fetch_def failing_endpoint_def)
  have m: "fetch_hn_jobs failing_endpoint ''ml'' 50 = ([good_hit], [])"
    by (simp add: fetch_hn_jobs_def try_fetch_def failing_endpoint_def ok_response_def)
  have a: "fetch_hn_jobs failing_endpoint ''down'' 50 = ([], [warn_line ''down'' ''timed out''])"
    using r(1) C8_fetch_failure_caught [of failing_endpoint "''down''" 50 "''timed out''"] by blast
  have b: "fetch_hn_jobs failing_endpoint ''busy'' 50 = ([], [warn_line ''busy'' ''503 Server Error''])"
    using r(2) C8_fetch_failure_caught [of failing_endpoint "''busy''" 50 "''503 Server Error''"] by blast
  have c: "fetch_hn_jobs failing_endpoint ''html'' 50 = ([], [warn_line ''html'' ''Expecting value''])"
    using r(3) C8_fetch_failure_caught [of failing_endpoint "''html''" 50 "''Expecting value''"] by blast
  have d: "fetch_hn_jobs failing_endpoint ''list'' 50 = ([], [warn_line ''list'' ''no attribute get''])"
    using r(4) C8_fetch_failure_caught [of failing_endpoint "''list''" 50 "''no attribute get''"] by blast
  have ml: "all_hits failing_endpoint 50 [''ml''] = [good_hit]"
    "all_warnings failing_endpoint 50 [''ml''] = []"
    using m by (simp_all add: all_hits_def all_warnings_def)
  from r(1) C8_fetch_failure_caught [of failing_endpoint "''down''" 50 "''timed out''"
      initial_state "[]" "[]" "[''ml'']"]
  have "all_listings (scan_keywords failing_endpoint 50 initial_state ([] @ ''down'' # [''ml''])) =
        all_listings (scan_keywords failing_endpoint 50 initial_state ([] @ [''ml'']))"
    and "stderr (scan_keywords failing_endpoint 50 initial_state ([] @ ''down'' # [''ml''])) =
        stderr initial_state @ all_warnings failing_endpoint 50 [] @
        [warn_line ''down'' ''timed out''] @ all_warnings failing_endpoint 50 [''ml'']"
    by blast+
  then have e: "all_listings (scan_keywords failing_endpoint 50 initial_state [''down'', ''ml'']) =
     [listing_of good_hit]"
    and f: "stderr (scan_keywords failing_endpoint 50 initial_state [''down'', ''ml'']) =
     [warn_line ''down'' ''timed out'']"
    using ml
    by (simp_all add: scan_keywords_listings good_hit_qualifies initial_state_def all_warnings_def
        del: scan_keywords.simps)
  from a b c d e f show ?thesis by blast
qed

end
